theory Spec2Isabelle
  imports Main
begin

section \<open>Data model of \<open>dnsnameresolver.go\<close>\<close>

text \<open>
  \<open>namespaceDNSInfo\<close> is the Go type \<open>map[string]string\<close> (namespace to object name);
  the two indices of the plugin are \<open>map[string]namespaceDNSInfo\<close> (DNS name to
  \<open>namespaceDNSInfo\<close>). A Go map is a finite partial function.
\<close>

type_synonym namespaceDNSInfo = "string \<rightharpoonup> string"
type_synonym dnsInfo = "string \<rightharpoonup> namespaceDNSInfo"

text \<open>
  The three fields of a \<open>DNSNameResolver\<close> object which the handlers read:
  \<open>resolverObj.Namespace\<close>, \<open>resolverObj.Name\<close> and \<open>resolverObj.Spec.Name\<close>.
\<close>

record DNSNameResolver =
  Namespace :: string
  Name :: string
  Spec_Name :: string

text \<open>
  A handler receives an \<open>interface{}\<close>. The type assertion
  \<open>obj.(*ocpnetworkapiv1alpha1.DNSNameResolver)\<close> either succeeds (\<open>Resolver\<close>, the
  pointer being the non-nil object the informer delivers) or fails (\<open>Other\<close>, carrying
  the text that \<open>%v\<close> prints for the value).
\<close>

datatype object = Resolver DNSNameResolver | Other string

text \<open>
  A Go channel that is only ever made and closed: \<open>nil\<close> before \<open>make\<close>, open after
  it, closed after \<open>close\<close>. Closing a nil or an already closed channel panics.
\<close>

datatype chan = NilChan | OpenChan | ClosedChan

definition close_chan :: "chan \<Rightarrow> chan option" where
  "close_chan c = (case c of OpenChan \<Rightarrow> Some ClosedChan | NilChan \<Rightarrow> None | ClosedChan \<Rightarrow> None)"

text \<open>
  The mutable fields of the struct \<open>OCPDNSNameResolver\<close> that the functions of this file
  read or write. The mutexes are not modelled: every handler body and the body of
  \<open>onShut\<close> is one critical section, which the model runs as one function application.
\<close>

record OCPDNSNameResolver =
  regularDNSInfo :: dnsInfo
  wildcardDNSInfo :: dnsInfo
  stopCh :: chan
  shutdown :: bool

definition New :: OCPDNSNameResolver where
  "New = \<lparr>regularDNSInfo = Map.empty, wildcardDNSInfo = Map.empty,
           stopCh = NilChan, shutdown = False\<rparr>"

text \<open>What a call does besides changing the struct, in the order it happens.\<close>

datatype effect =
    LogInfo string
  | LogWarning string
  | Send DNSNameResolver
  | CloseStopCh

type_synonym error = string

section \<open>Helpers\<close>

text \<open>
  Reading a Go \<open>map[string]string\<close> at a key without the comma-ok form: a missing key
  yields the zero value of \<open>string\<close>, the empty string.
\<close>

definition mapIndex :: "namespaceDNSInfo \<Rightarrow> string \<Rightarrow> string" where
  "mapIndex m k = (case m k of None \<Rightarrow> [] | Some v \<Rightarrow> v)"

text \<open>Modelled from the spec: the function \<open>isWildcard\<close>, which the handlers call and
  \<open>dnsnameresolver.go\<close> does not define. The specification says: classify \<open>dnsName\<close> as
  wildcard if its text begins with the two-character prefix \<open>*.\<close>; otherwise regular.
\<close>

definition isWildcard :: "string \<Rightarrow> bool" where
  "isWildcard dnsName = (take 2 dnsName = ''*.'')"

text \<open>
  The method \<open>resolver.configuredNamespace\<close> is not defined in \<open>dnsnameresolver.go\<close>
  either, and the specification leaves its value on an empty allow-set open. It is a pure
  predicate on the namespace, fixed at construction time, so every handler below takes it
  as its first parameter \<open>configuredNamespace\<close>, and every theorem holds for each such
  predicate.
\<close>

section \<open>The event handlers of \<open>initInformer\<close>\<close>

text \<open>
  The critical section of \<open>AddFunc\<close> (lines 101 to 115 for the wildcard map, repeated
  word for word at lines 119 to 133 for the regular map). \<open>None\<close> is the early
  \<open>return\<close> of the handler at lines 106 to 109; \<open>Some\<close> carries the map after the two
  assignments.
\<close>

definition addDNSInfo :: "dnsInfo \<Rightarrow> string \<Rightarrow> string \<Rightarrow> string \<Rightarrow> dnsInfo option" where
  "addDNSInfo info dnsName ns name =
     (case info dnsName of
        Some dnsInfoMap \<Rightarrow>
          if mapIndex dnsInfoMap ns \<noteq> name then None
          else Some (info(dnsName \<mapsto> dnsInfoMap(ns \<mapsto> name)))
      | None \<Rightarrow> Some (info(dnsName \<mapsto> Map.empty(ns \<mapsto> name))))"

text \<open>
  The critical section of \<open>DeleteFunc\<close> (lines 160 to 174, repeated at lines 178 to
  192). \<open>len(dnsInfoMap) > 0\<close> is \<open>dom \<dots> \<noteq> {}\<close>.
\<close>

definition deleteDNSInfo :: "dnsInfo \<Rightarrow> string \<Rightarrow> string \<Rightarrow> string \<Rightarrow> dnsInfo" where
  "deleteDNSInfo info dnsName ns name =
     (case info dnsName of
        Some dnsInfoMap \<Rightarrow>
          if mapIndex dnsInfoMap ns = name then
            (if dom (dnsInfoMap(ns := None)) \<noteq> {}
             then info(dnsName \<mapsto> dnsInfoMap(ns := None))
             else info(dnsName := None))
          else info
      | None \<Rightarrow> info)"

text \<open>
  The optional hook \<open>send\<close> is \<open>hook\<close>: \<open>True\<close> when the function value is not nil.
  Calling it is the effect \<open>Send\<close> of the object passed.
\<close>

definition callSend :: "bool \<Rightarrow> DNSNameResolver \<Rightarrow> effect list" where
  "callSend hook resolverObj = (if hook then [Send resolverObj] else [])"

definition notResolver :: "string \<Rightarrow> effect list" where
  "notResolver v = [LogInfo (''object not of type DNSNameResolver: '' @ v)]"

definition AddFunc ::
  "(string \<Rightarrow> bool) \<Rightarrow> bool \<Rightarrow> object \<Rightarrow> OCPDNSNameResolver \<Rightarrow> OCPDNSNameResolver \<times> effect list" where
  "AddFunc configuredNamespace hook obj resolver =
     (case obj of
        Other v \<Rightarrow> (resolver, notResolver v)
      | Resolver resolverObj \<Rightarrow>
          if \<not> configuredNamespace (Namespace resolverObj) then (resolver, [])
          else
            let dnsName = Spec_Name resolverObj in
            if isWildcard dnsName then
              (case addDNSInfo (wildcardDNSInfo resolver) dnsName
                      (Namespace resolverObj) (Name resolverObj) of
                 None \<Rightarrow> (resolver, [])
               | Some info \<Rightarrow>
                   (resolver\<lparr>wildcardDNSInfo := info\<rparr>, callSend hook resolverObj))
            else
              (case addDNSInfo (regularDNSInfo resolver) dnsName
                      (Namespace resolverObj) (Name resolverObj) of
                 None \<Rightarrow> (resolver, [])
               | Some info \<Rightarrow>
                   (resolver\<lparr>regularDNSInfo := info\<rparr>, callSend hook resolverObj)))"

definition DeleteFunc ::
  "(string \<Rightarrow> bool) \<Rightarrow> bool \<Rightarrow> object \<Rightarrow> OCPDNSNameResolver \<Rightarrow> OCPDNSNameResolver \<times> effect list" where
  "DeleteFunc configuredNamespace hook obj resolver =
     (case obj of
        Other v \<Rightarrow> (resolver, notResolver v)
      | Resolver resolverObj \<Rightarrow>
          if \<not> configuredNamespace (Namespace resolverObj) then (resolver, [])
          else
            let dnsName = Spec_Name resolverObj in
            if isWildcard dnsName then
              (resolver\<lparr>wildcardDNSInfo :=
                  deleteDNSInfo (wildcardDNSInfo resolver) dnsName
                    (Namespace resolverObj) (Name resolverObj)\<rparr>,
               callSend hook resolverObj)
            else
              (resolver\<lparr>regularDNSInfo :=
                  deleteDNSInfo (regularDNSInfo resolver) dnsName
                    (Namespace resolverObj) (Name resolverObj)\<rparr>,
               callSend hook resolverObj))"

text \<open>
  \<open>UpdateFunc\<close> asserts the type of \<open>oldObj\<close> and binds the result to the variable the
  source calls \<open>newResolverObj\<close>; \<open>newObj\<close> is a parameter that the body never reads.
\<close>

definition UpdateFunc ::
  "(string \<Rightarrow> bool) \<Rightarrow> bool \<Rightarrow> object \<Rightarrow> object \<Rightarrow> OCPDNSNameResolver
     \<Rightarrow> OCPDNSNameResolver \<times> effect list" where
  "UpdateFunc configuredNamespace hook oldObj newObj resolver =
     (case oldObj of
        Other v \<Rightarrow> (resolver, notResolver v)
      | Resolver newResolverObj \<Rightarrow>
          if \<not> configuredNamespace (Namespace newResolverObj) then (resolver, [])
          else (resolver, callSend hook newResolverObj))"

text \<open>
  The informer delivers notifications one at a time on one goroutine; a run of the
  handlers over a list of notifications is a left fold.
\<close>

datatype notification = Add object | Update object object | Delete object

fun handle ::
  "(string \<Rightarrow> bool) \<Rightarrow> bool \<Rightarrow> notification \<Rightarrow> OCPDNSNameResolver \<Rightarrow> OCPDNSNameResolver \<times> effect list" where
  "handle c h (Add obj) r = AddFunc c h obj r"
| "handle c h (Update oldObj newObj) r = UpdateFunc c h oldObj newObj r"
| "handle c h (Delete obj) r = DeleteFunc c h obj r"

fun run ::
  "(string \<Rightarrow> bool) \<Rightarrow> bool \<Rightarrow> notification list \<Rightarrow> OCPDNSNameResolver \<Rightarrow> OCPDNSNameResolver" where
  "run c h [] r = r"
| "run c h (n # ns) r = run c h ns (fst (handle c h n r))"

text \<open>The objects a notification carries: one for Add and Delete, two for Update.\<close>

fun notificationObjects :: "notification \<Rightarrow> object list" where
  "notificationObjects (Add obj) = [obj]"
| "notificationObjects (Update oldObj newObj) = [oldObj, newObj]"
| "notificationObjects (Delete obj) = [obj]"

text \<open>
  The index that the handlers select for a DNS name (lines 98 and 157), and the owner
  that index records for a DNS name and a namespace, if any.
\<close>

definition selectedIndex :: "OCPDNSNameResolver \<Rightarrow> string \<Rightarrow> dnsInfo" where
  "selectedIndex resolver dnsName =
     (if isWildcard dnsName then wildcardDNSInfo resolver else regularDNSInfo resolver)"

definition owner :: "dnsInfo \<Rightarrow> string \<Rightarrow> string \<Rightarrow> string option" where
  "owner info dnsName ns = (case info dnsName of None \<Rightarrow> None | Some dnsInfoMap \<Rightarrow> dnsInfoMap ns)"

section \<open>The lifecycle callbacks of \<open>initPlugin\<close>\<close>

text \<open>
  \<open>initInformer\<close> stores the client and the informer in the struct, registers the three
  handlers above and ends with \<open>return nil\<close>: the fields it writes are not modelled, its
  result is.
\<close>

definition initInformer :: "'client \<Rightarrow> error option" where
  "initInformer networkClient = None"

text \<open>
  \<open>initPlugin\<close> calls \<open>rest.InClusterConfig()\<close> and \<open>ocpnetworkclient.NewForConfig\<close>,
  which are outside this repository: their results are the parameters
  \<open>inClusterConfig\<close> and \<open>newForConfig\<close>. On success the struct has a freshly made
  \<open>stopCh\<close>, and the two callbacks returned are \<open>onStart\<close> and \<open>onShut\<close> below.
\<close>

definition initPlugin ::
  "error + 'config \<Rightarrow> ('config \<Rightarrow> error + 'client) \<Rightarrow> OCPDNSNameResolver
     \<Rightarrow> error + OCPDNSNameResolver" where
  "initPlugin inClusterConfig newForConfig resolver =
     (case inClusterConfig of
        Inl err \<Rightarrow> Inl err
      | Inr kubeConfig \<Rightarrow>
          (case newForConfig kubeConfig of
             Inl err \<Rightarrow> Inl err
           | Inr networkClient \<Rightarrow>
               (case initInformer networkClient of
                  Some err \<Rightarrow> Inl err
                | None \<Rightarrow> Inr (resolver\<lparr>stopCh := OpenChan\<rparr>))))"

text \<open>
  What the \<open>select\<close> of \<open>onStart\<close> receives, one value per iteration of the loop: a
  tick of \<open>checkSyncTicker\<close> together with what \<open>HasSynced()\<close> answers then, a tick of
  \<open>logTicker\<close>, or the tick of \<open>timeoutTicker\<close>.
\<close>

datatype tick = CheckSync bool | LogTick | TimeoutTick

text \<open>
  The loop of \<open>onStart\<close> over the ticks it receives. \<open>None\<close>: the loop is still
  waiting in \<open>select\<close> when the list ends. \<open>Some (err, log)\<close>: the callback has returned
  \<open>err\<close> after writing \<open>log\<close>.
\<close>

fun onStart :: "tick list \<Rightarrow> (error option \<times> effect list) option" where
  "onStart [] = None"
| "onStart (CheckSync synced # ticks) =
     (if synced then Some (None, []) else onStart ticks)"
| "onStart (LogTick # ticks) =
     (case onStart ticks of
        None \<Rightarrow> None
      | Some (err, log) \<Rightarrow>
          Some (err, LogInfo ''waiting for DNS Name Resolver Informer sync before starting server'' # log))"
| "onStart (TimeoutTick # ticks) =
     Some (None, [LogWarning ''starting server with unsynced DNS Name Resolver Informer''])"

text \<open>
  \<open>onShut\<close>, one call. \<open>None\<close>: the call panics (\<open>close\<close> of a channel that is nil or
  closed). \<open>Some (err, effects, resolver')\<close>: it returns \<open>err\<close>.
\<close>

definition onShut ::
  "OCPDNSNameResolver \<Rightarrow> (error option \<times> effect list \<times> OCPDNSNameResolver) option" where
  "onShut resolver =
     (if \<not> shutdown resolver then
        (case close_chan (stopCh resolver) of
           None \<Rightarrow> None
         | Some ch \<Rightarrow> Some (None, [CloseStopCh], resolver\<lparr>stopCh := ch, shutdown := True\<rparr>))
      else Some (Some ''shutdown already in progress'', [], resolver))"

text \<open>
  \<open>n\<close> calls of \<open>onShut\<close> in a row: the results in order, all effects in order, and
  the struct at the end; \<open>None\<close> when one of the calls panics.
\<close>

fun onShutCalls ::
  "nat \<Rightarrow> OCPDNSNameResolver \<Rightarrow> (error option list \<times> effect list \<times> OCPDNSNameResolver) option" where
  "onShutCalls 0 resolver = Some ([], [], resolver)"
| "onShutCalls (Suc n) resolver =
     (case onShut resolver of
        None \<Rightarrow> None
      | Some (err, effects, resolver') \<Rightarrow>
          (case onShutCalls n resolver' of
             None \<Rightarrow> None
           | Some (errs, effects', resolver'') \<Rightarrow>
               Some (err # errs, effects @ effects', resolver'')))"

text \<open>
  The partition of DNS names over the two maps: every key of the wildcard map is a
  wildcard name and no key of the regular map is.
\<close>

definition partitioned :: "OCPDNSNameResolver \<Rightarrow> bool" where
  "partitioned r \<longleftrightarrow>
     dom (wildcardDNSInfo r) \<subseteq> {k. isWildcard k} \<and> dom (regularDNSInfo r) \<subseteq> {k. \<not> isWildcard k}"

section \<open>Facts about the two critical sections\<close>

lemma addDNSInfo_None_iff:
  "addDNSInfo info dnsName ns name = None \<longleftrightarrow>
     (\<exists>m. info dnsName = Some m \<and> mapIndex m ns \<noteq> name)"
  by (simp add: addDNSInfo_def split: option.splits)

lemma addDNSInfo_Some:
  assumes "addDNSInfo info dnsName ns name = Some info'"
  shows "info' = info(dnsName \<mapsto> (case info dnsName of None \<Rightarrow> Map.empty | Some m \<Rightarrow> m)(ns \<mapsto> name))"
  using assms by (auto simp: addDNSInfo_def split: option.splits if_splits)

lemma addDNSInfo_other:
  assumes "addDNSInfo info dnsName ns name = Some info'" and "k \<noteq> dnsName"
  shows "info' k = info k"
  using assms by (auto simp: addDNSInfo_def split: option.splits if_splits)

lemma addDNSInfo_owner:
  assumes "addDNSInfo info dnsName ns name = Some info'"
  shows "owner info' dnsName ns = Some name"
  using assms by (auto simp: addDNSInfo_def owner_def split: option.splits if_splits)

lemma deleteDNSInfo_other:
  assumes "k \<noteq> dnsName"
  shows "deleteDNSInfo info dnsName ns name k = info k"
  using assms by (simp add: deleteDNSInfo_def split: option.splits)

lemma deleteDNSInfo_mismatch:
  assumes "info dnsName = Some m" and "mapIndex m ns \<noteq> name"
  shows "deleteDNSInfo info dnsName ns name = info"
  using assms by (simp add: deleteDNSInfo_def)

lemma deleteDNSInfo_match:
  assumes "info dnsName = Some m" and "mapIndex m ns = name"
  shows "deleteDNSInfo info dnsName ns name =
           (if dom m \<subseteq> {ns} then info(dnsName := None) else info(dnsName \<mapsto> m(ns := None)))"
  using assms by (auto simp: deleteDNSInfo_def)

lemma mapIndex_Some: "m k = Some v \<Longrightarrow> mapIndex m k = v"
  by (simp add: mapIndex_def)

lemma mapIndex_None: "m k = None \<Longrightarrow> mapIndex m k = []"
  by (simp add: mapIndex_def)

lemma addDNSInfo_idem:
  assumes "addDNSInfo info dnsName ns name = Some info'"
  shows "addDNSInfo info' dnsName ns name = Some info'"
  using assms
  by (auto simp: addDNSInfo_def mapIndex_def split: option.splits if_splits)

lemma deleteDNSInfo_idem:
  "deleteDNSInfo (deleteDNSInfo info dnsName ns name) dnsName ns name
     = deleteDNSInfo info dnsName ns name"
  by (auto simp: deleteDNSInfo_def mapIndex_def fun_upd_idem split: option.splits if_splits)

lemma addDNSInfo_no_new_empty:
  assumes "addDNSInfo info dnsName ns name = Some info'" and "info' k = Some Map.empty"
  shows "info k = Some Map.empty"
proof (cases "k = dnsName")
  case True
  have "info' dnsName \<noteq> Some Map.empty"
    using addDNSInfo_Some [OF assms(1)] by simp
  then show ?thesis using assms(2) True by simp
next
  case False
  then show ?thesis using addDNSInfo_other [OF assms(1)] assms(2) by simp
qed

lemma delete_leaves_nonempty:
  assumes "\<not> dom m \<subseteq> {ns}"
  shows "m(ns := None) \<noteq> Map.empty"
proof
  assume "m(ns := None) = Map.empty"
  then have "dom (m(ns := None)) = {}" by simp
  then show False using assms by simp
qed

lemma deleteDNSInfo_at:
  "deleteDNSInfo info dnsName ns name dnsName = None
   \<or> deleteDNSInfo info dnsName ns name dnsName = info dnsName
   \<or> (\<exists>m. deleteDNSInfo info dnsName ns name dnsName = Some m \<and> m \<noteq> Map.empty)"
  by (simp add: deleteDNSInfo_def delete_leaves_nonempty split: option.splits)

lemma deleteDNSInfo_no_new_empty:
  assumes "deleteDNSInfo info dnsName ns name k = Some Map.empty"
  shows "info k = Some Map.empty"
proof (cases "k = dnsName")
  case True
  then show ?thesis using deleteDNSInfo_at [of info dnsName ns name] assms by auto
next
  case False
  then show ?thesis using deleteDNSInfo_other [of k dnsName info ns name] assms by simp
qed

lemma addDNSInfo_dom:
  assumes "addDNSInfo info dnsName ns name = Some info'"
  shows "dom info' = insert dnsName (dom info)"
  using addDNSInfo_Some [OF assms] by simp

lemma deleteDNSInfo_dom: "dom (deleteDNSInfo info dnsName ns name) \<subseteq> dom info"
proof
  fix k assume k: "k \<in> dom (deleteDNSInfo info dnsName ns name)"
  show "k \<in> dom info"
  proof (cases "k = dnsName")
    case True
    then show ?thesis using k by (auto simp: deleteDNSInfo_def split: option.splits)
  next
    case False
    then show ?thesis using k deleteDNSInfo_other [of k dnsName info ns name]
      by (simp add: domIff)
  qed
qed

lemma AddFunc_cases:
  obtains (same) "fst (AddFunc c h obj r) = r"
  | (wild) x info where "obj = Resolver x" and "isWildcard (Spec_Name x)"
      and "addDNSInfo (wildcardDNSInfo r) (Spec_Name x) (Namespace x) (Name x) = Some info"
      and "fst (AddFunc c h obj r) = r\<lparr>wildcardDNSInfo := info\<rparr>"
  | (reg) x info where "obj = Resolver x" and "\<not> isWildcard (Spec_Name x)"
      and "addDNSInfo (regularDNSInfo r) (Spec_Name x) (Namespace x) (Name x) = Some info"
      and "fst (AddFunc c h obj r) = r\<lparr>regularDNSInfo := info\<rparr>"
proof (cases obj)
  case (Other v)
  then have "fst (AddFunc c h obj r) = r" by (simp add: AddFunc_def)
  then show ?thesis by (rule same)
next
  case (Resolver x)
  show ?thesis
  proof (cases "c (Namespace x)")
    case False
    then have "fst (AddFunc c h obj r) = r" using Resolver by (simp add: AddFunc_def)
    then show ?thesis by (rule same)
  next
    case inScope: True
    show ?thesis
    proof (cases "isWildcard (Spec_Name x)")
      case True
      show ?thesis
      proof (cases "addDNSInfo (wildcardDNSInfo r) (Spec_Name x) (Namespace x) (Name x)")
        case None
        then have "fst (AddFunc c h obj r) = r"
          using Resolver inScope True by (simp add: AddFunc_def)
        then show ?thesis by (rule same)
      next
        case (Some info)
        then have "fst (AddFunc c h obj r) = r\<lparr>wildcardDNSInfo := info\<rparr>"
          using Resolver inScope True by (simp add: AddFunc_def)
        then show ?thesis using wild Resolver True Some by blast
      qed
    next
      case False
      show ?thesis
      proof (cases "addDNSInfo (regularDNSInfo r) (Spec_Name x) (Namespace x) (Name x)")
        case None
        then have "fst (AddFunc c h obj r) = r"
          using Resolver inScope False by (simp add: AddFunc_def)
        then show ?thesis by (rule same)
      next
        case (Some info)
        then have "fst (AddFunc c h obj r) = r\<lparr>regularDNSInfo := info\<rparr>"
          using Resolver inScope False by (simp add: AddFunc_def)
        then show ?thesis using reg Resolver False Some by blast
      qed
    qed
  qed
qed

lemma DeleteFunc_cases:
  obtains (same) "fst (DeleteFunc c h obj r) = r"
  | (wild) x where "obj = Resolver x" and "c (Namespace x)" and "isWildcard (Spec_Name x)"
      and "fst (DeleteFunc c h obj r) = r\<lparr>wildcardDNSInfo :=
             deleteDNSInfo (wildcardDNSInfo r) (Spec_Name x) (Namespace x) (Name x)\<rparr>"
  | (reg) x where "obj = Resolver x" and "c (Namespace x)" and "\<not> isWildcard (Spec_Name x)"
      and "fst (DeleteFunc c h obj r) = r\<lparr>regularDNSInfo :=
             deleteDNSInfo (regularDNSInfo r) (Spec_Name x) (Namespace x) (Name x)\<rparr>"
proof (cases obj)
  case (Other v)
  then have "fst (DeleteFunc c h obj r) = r" by (simp add: DeleteFunc_def)
  then show ?thesis by (rule same)
next
  case (Resolver x)
  show ?thesis
  proof (cases "c (Namespace x)")
    case False
    then have "fst (DeleteFunc c h obj r) = r" using Resolver by (simp add: DeleteFunc_def)
    then show ?thesis by (rule same)
  next
    case inScope: True
    show ?thesis
    proof (cases "isWildcard (Spec_Name x)")
      case True
      then have "fst (DeleteFunc c h obj r) = r\<lparr>wildcardDNSInfo :=
             deleteDNSInfo (wildcardDNSInfo r) (Spec_Name x) (Namespace x) (Name x)\<rparr>"
        using Resolver inScope by (simp add: DeleteFunc_def)
      then show ?thesis using wild Resolver inScope True by blast
    next
      case False
      then have "fst (DeleteFunc c h obj r) = r\<lparr>regularDNSInfo :=
             deleteDNSInfo (regularDNSInfo r) (Spec_Name x) (Namespace x) (Name x)\<rparr>"
        using Resolver inScope by (simp add: DeleteFunc_def)
      then show ?thesis using reg Resolver inScope False by blast
    qed
  qed
qed

lemma UpdateFunc_fst: "fst (UpdateFunc c h oldObj newObj r) = r"
  by (simp add: UpdateFunc_def split: object.splits)

lemma AddFunc_no_new_empty_regular:
  assumes "regularDNSInfo (fst (AddFunc c h obj r)) k = Some Map.empty"
  shows "regularDNSInfo r k = Some Map.empty"
proof (cases c h obj r rule: AddFunc_cases)
  case same
  then show ?thesis using assms by simp
next
  case (wild x info)
  then show ?thesis using assms by simp
next
  case (reg x info)
  then have "info k = Some Map.empty" using assms by simp
  with reg(3) show ?thesis by (rule addDNSInfo_no_new_empty)
qed

lemma AddFunc_no_new_empty_wildcard:
  assumes "wildcardDNSInfo (fst (AddFunc c h obj r)) k = Some Map.empty"
  shows "wildcardDNSInfo r k = Some Map.empty"
proof (cases c h obj r rule: AddFunc_cases)
  case same
  then show ?thesis using assms by simp
next
  case (wild x info)
  then have "info k = Some Map.empty" using assms by simp
  with wild(3) show ?thesis by (rule addDNSInfo_no_new_empty)
next
  case (reg x info)
  then show ?thesis using assms by simp
qed

lemma DeleteFunc_no_new_empty_regular:
  assumes "regularDNSInfo (fst (DeleteFunc c h obj r)) k = Some Map.empty"
  shows "regularDNSInfo r k = Some Map.empty"
proof (cases c h obj r rule: DeleteFunc_cases)
  case same
  then show ?thesis using assms by simp
next
  case (wild x)
  then show ?thesis using assms by simp
next
  case (reg x)
  then have "deleteDNSInfo (regularDNSInfo r) (Spec_Name x) (Namespace x) (Name x) k
               = Some Map.empty"
    using assms by simp
  then show ?thesis by (rule deleteDNSInfo_no_new_empty)
qed

lemma DeleteFunc_no_new_empty_wildcard:
  assumes "wildcardDNSInfo (fst (DeleteFunc c h obj r)) k = Some Map.empty"
  shows "wildcardDNSInfo r k = Some Map.empty"
proof (cases c h obj r rule: DeleteFunc_cases)
  case same
  then show ?thesis using assms by simp
next
  case (wild x)
  then have "deleteDNSInfo (wildcardDNSInfo r) (Spec_Name x) (Namespace x) (Name x) k
               = Some Map.empty"
    using assms by simp
  then show ?thesis by (rule deleteDNSInfo_no_new_empty)
next
  case (reg x)
  then show ?thesis using assms by simp
qed

lemma handle_no_new_empty_regular:
  assumes "regularDNSInfo (fst (handle c h n r)) k = Some Map.empty"
  shows "regularDNSInfo r k = Some Map.empty"
proof (cases n)
  case (Add obj)
  then show ?thesis using assms AddFunc_no_new_empty_regular by simp
next
  case (Update oldObj newObj)
  then show ?thesis using assms by (simp add: UpdateFunc_fst)
next
  case (Delete obj)
  then show ?thesis using assms DeleteFunc_no_new_empty_regular by simp
qed

lemma handle_no_new_empty_wildcard:
  assumes "wildcardDNSInfo (fst (handle c h n r)) k = Some Map.empty"
  shows "wildcardDNSInfo r k = Some Map.empty"
proof (cases n)
  case (Add obj)
  then show ?thesis using assms AddFunc_no_new_empty_wildcard by simp
next
  case (Update oldObj newObj)
  then show ?thesis using assms by (simp add: UpdateFunc_fst)
next
  case (Delete obj)
  then show ?thesis using assms DeleteFunc_no_new_empty_wildcard by simp
qed

lemma run_no_new_empty_regular:
  "regularDNSInfo (run c h ns r) k = Some Map.empty \<Longrightarrow> regularDNSInfo r k = Some Map.empty"
proof (induction ns arbitrary: r)
  case Nil
  then show ?case by simp
next
  case (Cons n ns)
  then have "regularDNSInfo (fst (handle c h n r)) k = Some Map.empty" by simp
  then show ?case by (rule handle_no_new_empty_regular)
qed

lemma run_no_new_empty_wildcard:
  "wildcardDNSInfo (run c h ns r) k = Some Map.empty \<Longrightarrow> wildcardDNSInfo r k = Some Map.empty"
proof (induction ns arbitrary: r)
  case Nil
  then show ?case by simp
next
  case (Cons n ns)
  then have "wildcardDNSInfo (fst (handle c h n r)) k = Some Map.empty" by simp
  then show ?case by (rule handle_no_new_empty_wildcard)
qed

section \<open>The partition of names over the two maps\<close>

lemma AddFunc_partitioned:
  assumes "partitioned r"
  shows "partitioned (fst (AddFunc c h obj r))"
proof (cases c h obj r rule: AddFunc_cases)
  case same
  then show ?thesis using assms by simp
next
  case (wild x info)
  have "dom info = insert (Spec_Name x) (dom (wildcardDNSInfo r))"
    using wild(3) by (rule addDNSInfo_dom)
  then show ?thesis using assms wild(2,4) by (simp add: partitioned_def)
next
  case (reg x info)
  have "dom info = insert (Spec_Name x) (dom (regularDNSInfo r))"
    using reg(3) by (rule addDNSInfo_dom)
  then show ?thesis using assms reg(2,4) by (simp add: partitioned_def)
qed

lemma DeleteFunc_partitioned:
  assumes "partitioned r"
  shows "partitioned (fst (DeleteFunc c h obj r))"
proof (cases c h obj r rule: DeleteFunc_cases)
  case same
  then show ?thesis using assms by simp
next
  case (wild x)
  have a: "dom (wildcardDNSInfo r) \<subseteq> {k. isWildcard k}"
    using assms by (simp add: partitioned_def)
  have "dom (deleteDNSInfo (wildcardDNSInfo r) (Spec_Name x) (Namespace x) (Name x))
          \<subseteq> {k. isWildcard k}"
    by (rule subset_trans [OF deleteDNSInfo_dom a])
  then show ?thesis using assms wild(4) by (simp add: partitioned_def)
next
  case (reg x)
  have a: "dom (regularDNSInfo r) \<subseteq> {k. \<not> isWildcard k}"
    using assms by (simp add: partitioned_def)
  have "dom (deleteDNSInfo (regularDNSInfo r) (Spec_Name x) (Namespace x) (Name x))
          \<subseteq> {k. \<not> isWildcard k}"
    by (rule subset_trans [OF deleteDNSInfo_dom a])
  then show ?thesis using assms reg(4) by (simp add: partitioned_def)
qed

lemma handle_partitioned: "partitioned r \<Longrightarrow> partitioned (fst (handle c h n r))"
  by (cases n) (simp_all add: UpdateFunc_fst AddFunc_partitioned DeleteFunc_partitioned)

lemma run_partitioned: "partitioned r \<Longrightarrow> partitioned (run c h ns r)"
  by (induction ns arbitrary: r) (simp_all add: handle_partitioned)

lemma New_partitioned: "partitioned New"
  by (simp add: partitioned_def New_def)

lemma AddFunc_routing:
  "if isWildcard (Spec_Name x)
   then regularDNSInfo (fst (AddFunc c h (Resolver x) r)) = regularDNSInfo r
      \<and> (\<forall>k. k \<noteq> Spec_Name x \<longrightarrow>
            wildcardDNSInfo (fst (AddFunc c h (Resolver x) r)) k = wildcardDNSInfo r k)
   else wildcardDNSInfo (fst (AddFunc c h (Resolver x) r)) = wildcardDNSInfo r
      \<and> (\<forall>k. k \<noteq> Spec_Name x \<longrightarrow>
            regularDNSInfo (fst (AddFunc c h (Resolver x) r)) k = regularDNSInfo r k)"
proof (cases c h "Resolver x" r rule: AddFunc_cases)
  case same
  then show ?thesis by simp
next
  case (wild y info)
  then show ?thesis using addDNSInfo_other [OF wild(3)] by simp
next
  case (reg y info)
  then show ?thesis using addDNSInfo_other [OF reg(3)] by simp
qed

lemma DeleteFunc_routing:
  "if isWildcard (Spec_Name x)
   then regularDNSInfo (fst (DeleteFunc c h (Resolver x) r)) = regularDNSInfo r
      \<and> (\<forall>k. k \<noteq> Spec_Name x \<longrightarrow>
            wildcardDNSInfo (fst (DeleteFunc c h (Resolver x) r)) k = wildcardDNSInfo r k)
   else wildcardDNSInfo (fst (DeleteFunc c h (Resolver x) r)) = wildcardDNSInfo r
      \<and> (\<forall>k. k \<noteq> Spec_Name x \<longrightarrow>
            regularDNSInfo (fst (DeleteFunc c h (Resolver x) r)) k = regularDNSInfo r k)"
proof (cases c h "Resolver x" r rule: DeleteFunc_cases)
  case same
  then show ?thesis by simp
next
  case (wild y)
  then show ?thesis by (simp add: deleteDNSInfo_other)
next
  case (reg y)
  then show ?thesis by (simp add: deleteDNSInfo_other)
qed

section \<open>Facts about the lifecycle callbacks\<close>

lemma onShut_open:
  assumes "stopCh r = OpenChan" and "\<not> shutdown r"
  shows "onShut r = Some (None, [CloseStopCh], r\<lparr>stopCh := ClosedChan, shutdown := True\<rparr>)"
  using assms by (simp add: onShut_def close_chan_def)

lemma onShut_again:
  assumes "shutdown r"
  shows "onShut r = Some (Some ''shutdown already in progress'', [], r)"
  using assms by (simp add: onShut_def)

lemma onShutCalls_again:
  assumes "shutdown r"
  shows "onShutCalls n r = Some (replicate n (Some ''shutdown already in progress''), [], r)"
  using assms by (induction n) (simp_all add: onShut_again)

lemma onStart_nil:
  "onStart ticks = Some (err, log) \<Longrightarrow> err = None"
  by (induction ticks arbitrary: log rule: onStart.induct)
     (auto split: if_splits option.splits)

lemma onStart_timeout:
  "TimeoutTick \<in> set ticks \<Longrightarrow> \<exists>log. onStart ticks = Some (None, log)"
  by (induction ticks rule: onStart.induct) auto

lemma onStart_synced:
  "CheckSync True \<in> set ticks \<Longrightarrow> \<exists>log. onStart ticks = Some (None, log)"
  by (induction ticks rule: onStart.induct) auto

lemma onStart_unsynced:
  "\<forall>t \<in> set ticks. t \<noteq> CheckSync True \<Longrightarrow> TimeoutTick \<in> set ticks \<Longrightarrow>
     \<exists>log. onStart ticks = Some (None,
        log @ [LogWarning ''starting server with unsynced DNS Name Resolver Informer''])"
proof (induction ticks rule: onStart.induct)
  case 1
  then show ?case by simp
next
  case (2 synced ticks)
  then show ?case by auto
next
  case (3 ticks)
  then obtain log where "onStart ticks = Some (None,
        log @ [LogWarning ''starting server with unsynced DNS Name Resolver Informer''])"
    by auto
  then have "onStart (LogTick # ticks) = Some (None,
        (LogInfo ''waiting for DNS Name Resolver Informer sync before starting server'' # log)
          @ [LogWarning ''starting server with unsynced DNS Name Resolver Informer''])"
    by simp
  then show ?case by blast
next
  case (4 ticks)
  have "onStart (TimeoutTick # ticks) = Some (None,
        [] @ [LogWarning ''starting server with unsynced DNS Name Resolver Informer''])"
    by simp
  then show ?case by blast
qed

lemma initPlugin_error:
  "initPlugin a b r = Inl err \<longleftrightarrow> a = Inl err \<or> (\<exists>kubeConfig. a = Inr kubeConfig \<and> b kubeConfig = Inl err)"
  by (auto simp: initPlugin_def initInformer_def split: sum.splits)

section \<open>Namespace filtering and the Update handler\<close>

text \<open>
  C6. A notification of any kind (Add, Update or Delete) that carries an object whose
  namespace the namespace filter does not accept leaves the resolver, and so both the
  regular and the wildcard index, unchanged, whether its DNS name is a wildcard or not.
\<close>

theorem filtered_namespace_unchanged:
  assumes "Resolver x \<in> set (notificationObjects n)"
    and "\<not> configuredNamespace (Namespace x)"
  shows "regularDNSInfo (fst (handle configuredNamespace hook n r)) = regularDNSInfo r
       \<and> wildcardDNSInfo (fst (handle configuredNamespace hook n r)) = wildcardDNSInfo r
       \<and> fst (handle configuredNamespace hook n r) = r"
  using assms
  by (cases n)
     (auto simp: AddFunc_def DeleteFunc_def UpdateFunc_def split: object.splits)

theorem filtered_namespace_unchanged_witness:
  "Resolver \<lparr>Namespace = ''team-b'', Name = ''resolver-1'', Spec_Name = ''*.example.com''\<rparr>
     \<in> set (notificationObjects
          (Delete (Resolver \<lparr>Namespace = ''team-b'', Name = ''resolver-1'', Spec_Name = ''*.example.com''\<rparr>)))
   \<and> \<not> (\<lambda>ns. ns = ''team-a'')
        (Namespace \<lparr>Namespace = ''team-b'', Name = ''resolver-1'', Spec_Name = ''*.example.com''\<rparr>)
   \<and> fst (handle (\<lambda>ns. ns = ''team-a'') True
        (Delete (Resolver \<lparr>Namespace = ''team-b'', Name = ''resolver-1'', Spec_Name = ''*.example.com''\<rparr>))
        (New\<lparr>wildcardDNSInfo := [''*.example.com'' \<mapsto> [''team-b'' \<mapsto> ''resolver-1'']]\<rparr>))
     = New\<lparr>wildcardDNSInfo := [''*.example.com'' \<mapsto> [''team-b'' \<mapsto> ''resolver-1'']]\<rparr>"
  using filtered_namespace_unchanged
    [of "\<lparr>Namespace = ''team-b'', Name = ''resolver-1'', Spec_Name = ''*.example.com''\<rparr>"
        "Delete (Resolver \<lparr>Namespace = ''team-b'', Name = ''resolver-1'', Spec_Name = ''*.example.com''\<rparr>)"
        "\<lambda>ns. ns = ''team-a''" True
        "New\<lparr>wildcardDNSInfo := [''*.example.com'' \<mapsto> [''team-b'' \<mapsto> ''resolver-1'']]\<rparr>"]
  by simp

text \<open>
  C8. The Update handler never changes the resolver: for every pair of old and new
  objects both maps are afterwards what they were before. All it does is log a payload of
  the wrong type, or filter by namespace and then call the observer hook when one is set.
\<close>

theorem update_never_mutates:
  "fst (UpdateFunc configuredNamespace hook oldObj newObj r) = r
   \<and> regularDNSInfo (fst (UpdateFunc configuredNamespace hook oldObj newObj r)) = regularDNSInfo r
   \<and> wildcardDNSInfo (fst (UpdateFunc configuredNamespace hook oldObj newObj r)) = wildcardDNSInfo r
   \<and> snd (UpdateFunc configuredNamespace hook oldObj newObj r) =
       (case oldObj of
          Other v \<Rightarrow> notResolver v
        | Resolver x \<Rightarrow> if configuredNamespace (Namespace x) \<and> hook then [Send x] else [])"
  by (simp add: UpdateFunc_def callSend_def split: object.splits)

text \<open>
  C10. The Update handler decides everything from its first argument, the old object:
  replacing the new object by any other value changes neither the resulting resolver nor
  the effects; a first argument of the wrong type is logged and dropped whatever the new
  object is; and when the old object's namespace is accepted and a hook is set, the hook
  receives exactly the old object.
\<close>

theorem update_reads_only_oldObj:
  "UpdateFunc configuredNamespace hook oldObj newObj r
     = UpdateFunc configuredNamespace hook oldObj newObj' r
   \<and> UpdateFunc configuredNamespace hook (Other v) newObj r = (r, notResolver v)
   \<and> UpdateFunc configuredNamespace hook (Resolver x) newObj r
       = (r, if configuredNamespace (Namespace x) \<and> hook then [Send x] else [])"
  by (simp add: UpdateFunc_def callSend_def)

section \<open>Ownership: conflicts and idempotence\<close>

text \<open>
  C2. In every state whose selected index holds owner \<open>A\<close> for name \<open>N\<close> and
  namespace \<open>X\<close>: an Add of \<open>(N, X, B)\<close> with \<open>B \<noteq> A\<close> changes nothing (the owner
  stays \<open>A\<close>, and the hook is not called); a Delete of \<open>(N, X, B)\<close> in that state
  changes nothing either; and a Delete of \<open>(N, X, A)\<close>, the namespace being accepted by
  the filter, removes the entry of namespace \<open>X\<close> for \<open>N\<close>: the name keeps its other
  namespaces, or goes when \<open>X\<close> was the only one.
\<close>

theorem conflicting_add_rejected:
  assumes "selectedIndex r N N = Some m" and "m X = Some A" and "B \<noteq> A"
  shows "AddFunc c h (Resolver \<lparr>Namespace = X, Name = B, Spec_Name = N\<rparr>) r = (r, [])
       \<and> fst (DeleteFunc c h (Resolver \<lparr>Namespace = X, Name = B, Spec_Name = N\<rparr>) r) = r
       \<and> (c X \<longrightarrow>
            selectedIndex (fst (DeleteFunc c h (Resolver \<lparr>Namespace = X, Name = A, Spec_Name = N\<rparr>) r)) N
              = (selectedIndex r N)(N := if dom m = {X} then None else Some (m(X := None)))
          \<and> owner (selectedIndex
                (fst (DeleteFunc c h (Resolver \<lparr>Namespace = X, Name = A, Spec_Name = N\<rparr>) r)) N) N X = None)"
proof -
  have idx: "mapIndex m X = A" using assms(2) by (rule mapIndex_Some)
  have ne: "mapIndex m X \<noteq> B" using idx assms(3) by simp
  have d: "dom m \<subseteq> {X} \<longleftrightarrow> dom m = {X}" using assms(2) by auto
  show ?thesis
    using assms(1) ne idx d
    by (auto simp: AddFunc_def DeleteFunc_def selectedIndex_def Let_def addDNSInfo_def
        deleteDNSInfo_mismatch deleteDNSInfo_match owner_def split: if_splits)
qed

theorem conflicting_add_rejected_witness:
  "selectedIndex (New\<lparr>regularDNSInfo := [''svc.example.com'' \<mapsto> [''team-a'' \<mapsto> ''resolver-1'']]\<rparr>)
       ''svc.example.com'' ''svc.example.com'' = Some [''team-a'' \<mapsto> ''resolver-1'']
   \<and> [''team-a'' \<mapsto> ''resolver-1''] ''team-a'' = Some ''resolver-1''
   \<and> ''resolver-2'' \<noteq> ''resolver-1''
   \<and> AddFunc (\<lambda>ns. True) True
         (Resolver \<lparr>Namespace = ''team-a'', Name = ''resolver-2'', Spec_Name = ''svc.example.com''\<rparr>)
         (New\<lparr>regularDNSInfo := [''svc.example.com'' \<mapsto> [''team-a'' \<mapsto> ''resolver-1'']]\<rparr>)
       = (New\<lparr>regularDNSInfo := [''svc.example.com'' \<mapsto> [''team-a'' \<mapsto> ''resolver-1'']]\<rparr>, [])
   \<and> fst (DeleteFunc (\<lambda>ns. True) True
         (Resolver \<lparr>Namespace = ''team-a'', Name = ''resolver-2'', Spec_Name = ''svc.example.com''\<rparr>)
         (New\<lparr>regularDNSInfo := [''svc.example.com'' \<mapsto> [''team-a'' \<mapsto> ''resolver-1'']]\<rparr>))
       = New\<lparr>regularDNSInfo := [''svc.example.com'' \<mapsto> [''team-a'' \<mapsto> ''resolver-1'']]\<rparr>
   \<and> selectedIndex (fst (DeleteFunc (\<lambda>ns. True) True
         (Resolver \<lparr>Namespace = ''team-a'', Name = ''resolver-1'', Spec_Name = ''svc.example.com''\<rparr>)
         (New\<lparr>regularDNSInfo := [''svc.example.com'' \<mapsto> [''team-a'' \<mapsto> ''resolver-1'']]\<rparr>)))
       ''svc.example.com'' = Map.empty"
proof -
  let ?r = "New\<lparr>regularDNSInfo := [''svc.example.com'' \<mapsto> [''team-a'' \<mapsto> ''resolver-1'']]\<rparr>"
  have h1: "selectedIndex ?r ''svc.example.com'' ''svc.example.com''
              = Some [''team-a'' \<mapsto> ''resolver-1'']"
    by (simp add: selectedIndex_def isWildcard_def)
  have h2: "[''team-a'' \<mapsto> ''resolver-1''] ''team-a'' = Some ''resolver-1''" by simp
  have h3: "''resolver-2'' \<noteq> ''resolver-1''" by simp
  have h4: "selectedIndex ?r ''svc.example.com''
              = [''svc.example.com'' \<mapsto> [''team-a'' \<mapsto> ''resolver-1'']]"
    by (simp add: selectedIndex_def isWildcard_def)
  have h5: "dom [''team-a'' \<mapsto> ''resolver-1''] = {''team-a''}" by simp
  note c = conflicting_add_rejected [OF h1 h2 h3, of "\<lambda>ns. True" True, unfolded h4 h5]
  have gone: "selectedIndex (fst (DeleteFunc (\<lambda>ns. True) True
         (Resolver \<lparr>Namespace = ''team-a'', Name = ''resolver-1'', Spec_Name = ''svc.example.com''\<rparr>)
         ?r)) ''svc.example.com'' = Map.empty"
    using c by simp
  show ?thesis
    using h1 h2 h3 c gone by blast
qed

text \<open>
  C5. Handling the same Add notification a second time leaves the resolver as the first
  handling left it, and so does handling the same Delete notification a second time.
\<close>

theorem add_delete_idempotent:
  "fst (AddFunc c h obj (fst (AddFunc c h obj r))) = fst (AddFunc c h obj r)
   \<and> fst (DeleteFunc c h obj (fst (DeleteFunc c h obj r))) = fst (DeleteFunc c h obj r)"
proof
  show "fst (AddFunc c h obj (fst (AddFunc c h obj r))) = fst (AddFunc c h obj r)"
    by (cases obj) (auto simp: AddFunc_def Let_def addDNSInfo_idem split: option.splits)
  show "fst (DeleteFunc c h obj (fst (DeleteFunc c h obj r))) = fst (DeleteFunc c h obj r)"
    by (cases obj) (auto simp: DeleteFunc_def Let_def deleteDNSInfo_idem)
qed

text \<open>
  C1. The claim: an Add whose DNS name already has an entry in the selected index, for a
  namespace that has no owner recorded in that entry, sets namespace to object name in the
  entry. The handler does not do so. With \<open>svc.example.com\<close> owned by \<open>resolver-1\<close> in
  namespace \<open>team-a\<close>, the Add of \<open>resolver-2\<close> in namespace \<open>team-b\<close> for the same name
  reads the missing key \<open>team-b\<close> as the empty string, finds it different from
  \<open>resolver-2\<close> and returns: the index is what it was, \<open>team-b\<close> has no owner, and the
  hook is not called.
\<close>

theorem add_second_namespace_dropped:
  "run (\<lambda>ns. True) False
     [Add (Resolver \<lparr>Namespace = ''team-a'', Name = ''resolver-1'', Spec_Name = ''svc.example.com''\<rparr>),
      Add (Resolver \<lparr>Namespace = ''team-b'', Name = ''resolver-2'', Spec_Name = ''svc.example.com''\<rparr>)]
     New
   = New\<lparr>regularDNSInfo := [''svc.example.com'' \<mapsto> [''team-a'' \<mapsto> ''resolver-1'']]\<rparr>
   \<and> AddFunc (\<lambda>ns. True) True
       (Resolver \<lparr>Namespace = ''team-b'', Name = ''resolver-2'', Spec_Name = ''svc.example.com''\<rparr>)
       (New\<lparr>regularDNSInfo := [''svc.example.com'' \<mapsto> [''team-a'' \<mapsto> ''resolver-1'']]\<rparr>)
     = (New\<lparr>regularDNSInfo := [''svc.example.com'' \<mapsto> [''team-a'' \<mapsto> ''resolver-1'']]\<rparr>, [])
   \<and> owner (regularDNSInfo (run (\<lambda>ns. True) False
     [Add (Resolver \<lparr>Namespace = ''team-a'', Name = ''resolver-1'', Spec_Name = ''svc.example.com''\<rparr>),
      Add (Resolver \<lparr>Namespace = ''team-b'', Name = ''resolver-2'', Spec_Name = ''svc.example.com''\<rparr>)]
     New)) ''svc.example.com'' ''team-b'' = None"
  by (simp add: AddFunc_def addDNSInfo_def mapIndex_def isWildcard_def callSend_def owner_def New_def)

section \<open>Invariants of the two indices\<close>

text \<open>
  C4. When a Delete removes the only namespace owner of a DNS name (the namespace being
  accepted by the filter), the key of that name is absent from the selected index
  afterwards. No notification of any kind turns an entry that is not an empty namespace
  set into one; and after any run of notifications from the resolver that \<open>New\<close>
  returns, no key of either index maps to an empty namespace set.
\<close>

theorem no_empty_entries:
  "(c X \<and> selectedIndex r N N = Some m \<and> dom m = {X} \<and> m X = Some A \<longrightarrow>
      selectedIndex (fst (DeleteFunc c h
         (Resolver \<lparr>Namespace = X, Name = A, Spec_Name = N\<rparr>) r)) N N = None)
   \<and> (regularDNSInfo r k \<noteq> Some Map.empty \<longrightarrow>
        regularDNSInfo (fst (handle c h n r)) k \<noteq> Some Map.empty)
   \<and> (wildcardDNSInfo r k \<noteq> Some Map.empty \<longrightarrow>
        wildcardDNSInfo (fst (handle c h n r)) k \<noteq> Some Map.empty)
   \<and> regularDNSInfo (run c h ns New) k \<noteq> Some Map.empty
   \<and> wildcardDNSInfo (run c h ns New) k \<noteq> Some Map.empty"
proof -
  have last: "c X \<and> selectedIndex r N N = Some m \<and> dom m = {X} \<and> m X = Some A \<longrightarrow>
      selectedIndex (fst (DeleteFunc c h
         (Resolver \<lparr>Namespace = X, Name = A, Spec_Name = N\<rparr>) r)) N N = None"
    by (auto simp: DeleteFunc_def selectedIndex_def mapIndex_Some deleteDNSInfo_match)
  have r1: "regularDNSInfo (run c h ns New) k \<noteq> Some Map.empty"
    using run_no_new_empty_regular [of c h ns New k] by (auto simp: New_def)
  have r2: "wildcardDNSInfo (run c h ns New) k \<noteq> Some Map.empty"
    using run_no_new_empty_wildcard [of c h ns New k] by (auto simp: New_def)
  show ?thesis
    using last r1 r2 handle_no_new_empty_regular [of c h n r k]
      handle_no_new_empty_wildcard [of c h n r k]
    by blast
qed

theorem no_empty_entries_witness:
  "(\<lambda>ns. True) ''team-a''
   \<and> selectedIndex (New\<lparr>regularDNSInfo := [''svc.example.com'' \<mapsto> [''team-a'' \<mapsto> ''resolver-1'']]\<rparr>)
        ''svc.example.com'' ''svc.example.com'' = Some [''team-a'' \<mapsto> ''resolver-1'']
   \<and> dom [''team-a'' \<mapsto> ''resolver-1''] = {''team-a''}
   \<and> [''team-a'' \<mapsto> ''resolver-1''] ''team-a'' = Some ''resolver-1''
   \<and> selectedIndex (fst (DeleteFunc (\<lambda>ns. True) False
         (Resolver \<lparr>Namespace = ''team-a'', Name = ''resolver-1'', Spec_Name = ''svc.example.com''\<rparr>)
         (New\<lparr>regularDNSInfo := [''svc.example.com'' \<mapsto> [''team-a'' \<mapsto> ''resolver-1'']]\<rparr>)))
        ''svc.example.com'' ''svc.example.com'' = None
   \<and> regularDNSInfo (New\<lparr>regularDNSInfo := [''svc.example.com'' \<mapsto> [''team-a'' \<mapsto> ''resolver-1'']]\<rparr>)
        ''svc.example.com'' \<noteq> Some Map.empty
   \<and> regularDNSInfo (fst (handle (\<lambda>ns. True) False
         (Delete (Resolver \<lparr>Namespace = ''team-a'', Name = ''resolver-1'', Spec_Name = ''svc.example.com''\<rparr>))
         (New\<lparr>regularDNSInfo := [''svc.example.com'' \<mapsto> [''team-a'' \<mapsto> ''resolver-1'']]\<rparr>)))
        ''svc.example.com'' \<noteq> Some Map.empty
   \<and> wildcardDNSInfo (New\<lparr>regularDNSInfo := [''svc.example.com'' \<mapsto> [''team-a'' \<mapsto> ''resolver-1'']]\<rparr>)
        ''svc.example.com'' \<noteq> Some Map.empty"
proof -
  let ?r = "New\<lparr>regularDNSInfo := [''svc.example.com'' \<mapsto> [''team-a'' \<mapsto> ''resolver-1'']]\<rparr>"
  let ?x = "\<lparr>Namespace = ''team-a'', Name = ''resolver-1'', Spec_Name = ''svc.example.com''\<rparr>"
  have h1: "selectedIndex ?r ''svc.example.com'' ''svc.example.com''
              = Some [''team-a'' \<mapsto> ''resolver-1'']"
    by (simp add: selectedIndex_def isWildcard_def)
  have h2: "dom [''team-a'' \<mapsto> ''resolver-1''] = {''team-a''}" by simp
  have h3: "[''team-a'' \<mapsto> ''resolver-1''] ''team-a'' = Some ''resolver-1''" by simp
  have h4: "regularDNSInfo ?r ''svc.example.com'' \<noteq> Some Map.empty"
    by simp
  have h5: "wildcardDNSInfo ?r ''svc.example.com'' \<noteq> Some Map.empty"
    by (simp add: New_def)
  show ?thesis
    using h1 h2 h3 h4 h5
      no_empty_entries [of "\<lambda>ns. True" "''team-a''" ?r "''svc.example.com''"
        "[''team-a'' \<mapsto> ''resolver-1'']" "''resolver-1''" False "''svc.example.com''"
        "Delete (Resolver ?x)" "[]"]
    by blast
qed

text \<open>
  C7. \<open>isWildcard\<close> is a function of the text of the DNS name alone. An Add or a Delete
  of a wildcard name leaves the regular map as it is and changes the wildcard map at most
  at the key of that name; an Add or a Delete of a regular name leaves the wildcard map as
  it is and changes the regular map at most at that key. Every notification preserves the
  partition; so after any run of notifications from the resolver that \<open>New\<close> returns,
  every key of the wildcard map is a wildcard name, no key of the regular map is, and no
  DNS name is a key of both maps.
\<close>

theorem partition_exclusive:
  "(n = Add (Resolver x) \<or> n = Delete (Resolver x) \<longrightarrow>
      (if isWildcard (Spec_Name x)
       then regularDNSInfo (fst (handle c h n r)) = regularDNSInfo r
          \<and> (\<forall>k. k \<noteq> Spec_Name x \<longrightarrow>
                wildcardDNSInfo (fst (handle c h n r)) k = wildcardDNSInfo r k)
       else wildcardDNSInfo (fst (handle c h n r)) = wildcardDNSInfo r
          \<and> (\<forall>k. k \<noteq> Spec_Name x \<longrightarrow>
                regularDNSInfo (fst (handle c h n r)) k = regularDNSInfo r k)))
   \<and> (partitioned r \<longrightarrow> partitioned (fst (handle c h n r)))
   \<and> (\<forall>k. k \<in> dom (wildcardDNSInfo (run c h ns New)) \<longrightarrow> isWildcard k)
   \<and> (\<forall>k. k \<in> dom (regularDNSInfo (run c h ns New)) \<longrightarrow> \<not> isWildcard k)
   \<and> dom (regularDNSInfo (run c h ns New)) \<inter> dom (wildcardDNSInfo (run c h ns New)) = {}"
proof -
  have p: "partitioned (run c h ns New)"
    using New_partitioned by (rule run_partitioned)
  have routing: "n = Add (Resolver x) \<or> n = Delete (Resolver x) \<longrightarrow>
      (if isWildcard (Spec_Name x)
       then regularDNSInfo (fst (handle c h n r)) = regularDNSInfo r
          \<and> (\<forall>k. k \<noteq> Spec_Name x \<longrightarrow>
                wildcardDNSInfo (fst (handle c h n r)) k = wildcardDNSInfo r k)
       else wildcardDNSInfo (fst (handle c h n r)) = wildcardDNSInfo r
          \<and> (\<forall>k. k \<noteq> Spec_Name x \<longrightarrow>
                regularDNSInfo (fst (handle c h n r)) k = regularDNSInfo r k))"
    using AddFunc_routing [of x c h r] DeleteFunc_routing [of x c h r] by auto
  have inv: "partitioned r \<longrightarrow> partitioned (fst (handle c h n r))"
    by (simp add: handle_partitioned)
  have w: "\<forall>k. k \<in> dom (wildcardDNSInfo (run c h ns New)) \<longrightarrow> isWildcard k"
    using p unfolding partitioned_def by blast
  have g: "\<forall>k. k \<in> dom (regularDNSInfo (run c h ns New)) \<longrightarrow> \<not> isWildcard k"
    using p unfolding partitioned_def by blast
  have d: "dom (regularDNSInfo (run c h ns New)) \<inter> dom (wildcardDNSInfo (run c h ns New)) = {}"
    using w g by blast
  show ?thesis using routing inv w g d by blast
qed

theorem partition_exclusive_witness:
  "isWildcard ''*.example.com''
   \<and> regularDNSInfo (fst (handle (\<lambda>ns. True) False
         (Add (Resolver \<lparr>Namespace = ''team-a'', Name = ''resolver-1'', Spec_Name = ''*.example.com''\<rparr>))
         New)) = regularDNSInfo New
   \<and> partitioned New
   \<and> partitioned (fst (handle (\<lambda>ns. True) False
         (Add (Resolver \<lparr>Namespace = ''team-a'', Name = ''resolver-1'', Spec_Name = ''*.example.com''\<rparr>))
         New))
   \<and> ''*.example.com'' \<in> dom (wildcardDNSInfo (run (\<lambda>ns. True) False
         [Add (Resolver \<lparr>Namespace = ''team-a'', Name = ''resolver-1'', Spec_Name = ''*.example.com''\<rparr>)]
         New))
   \<and> ''*.example.com'' \<notin> dom (regularDNSInfo (run (\<lambda>ns. True) False
         [Add (Resolver \<lparr>Namespace = ''team-a'', Name = ''resolver-1'', Spec_Name = ''*.example.com''\<rparr>)]
         New))"
proof -
  let ?x = "\<lparr>Namespace = ''team-a'', Name = ''resolver-1'', Spec_Name = ''*.example.com''\<rparr>"
  have h1: "isWildcard (Spec_Name ?x)" by (simp add: isWildcard_def)
  have h2: "partitioned New" by (simp add: partitioned_def New_def)
  have h3: "''*.example.com'' \<in> dom (wildcardDNSInfo (run (\<lambda>ns. True) False [Add (Resolver ?x)] New))"
    by (simp add: AddFunc_def addDNSInfo_def isWildcard_def New_def Let_def)
  note t = partition_exclusive [of "Add (Resolver ?x)" ?x "\<lambda>ns. True" False New
      "[Add (Resolver ?x)]"]
  have h4: "''*.example.com'' \<notin> dom (regularDNSInfo (run (\<lambda>ns. True) False [Add (Resolver ?x)] New))"
    using t h3 by blast
  have h5: "regularDNSInfo (fst (handle (\<lambda>ns. True) False (Add (Resolver ?x)) New)) = regularDNSInfo New"
    using t h1 by presburger
  have h6: "partitioned (fst (handle (\<lambda>ns. True) False (Add (Resolver ?x)) New))"
    using t h2 by blast
  show ?thesis using h1 h2 h3 h4 h5 h6 by simp
qed

section \<open>Startup and shutdown\<close>

text \<open>
  C3. On a resolver whose \<open>stopCh\<close> is open and whose \<open>shutdown\<close> flag is not set, as
  \<open>initPlugin\<close> leaves it, the first call of \<open>onShut\<close> closes the channel, sets the flag
  and returns nil; a call after it returns the error \<open>shutdown already in progress\<close> and
  leaves the resolver as it is; and any number of calls in a row, one or more, never
  panics and has exactly one effect, the single \<open>close\<close> of the first call.
\<close>

theorem shutdown_closes_once:
  assumes "stopCh r = OpenChan" and "\<not> shutdown r"
  shows "onShut r = Some (None, [CloseStopCh], r\<lparr>stopCh := ClosedChan, shutdown := True\<rparr>)
       \<and> onShut (r\<lparr>stopCh := ClosedChan, shutdown := True\<rparr>)
           = Some (Some ''shutdown already in progress'', [],
                   r\<lparr>stopCh := ClosedChan, shutdown := True\<rparr>)
       \<and> onShutCalls (Suc n) r
           = Some (None # replicate n (Some ''shutdown already in progress''), [CloseStopCh],
                   r\<lparr>stopCh := ClosedChan, shutdown := True\<rparr>)"
proof -
  let ?r' = "r\<lparr>stopCh := ClosedChan, shutdown := True\<rparr>"
  have first: "onShut r = Some (None, [CloseStopCh], ?r')"
    using assms by (rule onShut_open)
  have down: "shutdown ?r'" by simp
  have second: "onShut ?r' = Some (Some ''shutdown already in progress'', [], ?r')"
    using down by (rule onShut_again)
  have rest: "onShutCalls n ?r' = Some (replicate n (Some ''shutdown already in progress''), [], ?r')"
    using down by (rule onShutCalls_again)
  have all: "onShutCalls (Suc n) r
           = Some (None # replicate n (Some ''shutdown already in progress''), [CloseStopCh], ?r')"
    by (simp add: first rest)
  show ?thesis using first second all by blast
qed

theorem shutdown_closes_once_witness:
  "stopCh (New\<lparr>stopCh := OpenChan\<rparr>) = OpenChan \<and> \<not> shutdown (New\<lparr>stopCh := OpenChan\<rparr>)
   \<and> initPlugin (Inr ()) (\<lambda>kubeConfig. Inr ()) New = Inr (New\<lparr>stopCh := OpenChan\<rparr>)
   \<and> onShutCalls 3 (New\<lparr>stopCh := OpenChan\<rparr>)
       = Some ([None, Some ''shutdown already in progress'', Some ''shutdown already in progress''],
               [CloseStopCh], New\<lparr>stopCh := ClosedChan, shutdown := True\<rparr>)"
proof -
  have h1: "stopCh (New\<lparr>stopCh := OpenChan\<rparr>) = OpenChan" by simp
  have h2: "\<not> shutdown (New\<lparr>stopCh := OpenChan\<rparr>)" by (simp add: New_def)
  have i: "initPlugin (Inr ()) (\<lambda>kubeConfig. Inr ()) New = Inr (New\<lparr>stopCh := OpenChan\<rparr>)"
    by (simp add: initPlugin_def initInformer_def)
  have three: "(3::nat) = Suc 2" by simp
  have rep: "replicate 2 x = [x, x]" for x :: "error option" by (simp add: numeral_2_eq_2)
  show ?thesis
    using h1 h2 i shutdown_closes_once [OF h1 h2, of 2]
    unfolding three rep by simp
qed

text \<open>
  C9. \<open>onStart\<close> never returns an error, whatever ticks its loop receives. It returns
  nil once the loop has received the tick of the timeout ticker, and once a check has
  found the informer synced, whichever comes first; when no check ever finds it synced,
  it returns nil on the timeout tick after logging the warning. An error of the initialisation comes from \<open>initPlugin\<close> alone, and there
  exactly from the construction of the configuration or of the client.
\<close>

theorem start_fails_open:
  "(\<forall>err log. onStart ticks \<noteq> Some (Some err, log))
   \<and> (TimeoutTick \<in> set ticks \<longrightarrow> (\<exists>log. onStart ticks = Some (None, log)))
   \<and> (CheckSync True \<in> set ticks \<longrightarrow> (\<exists>log. onStart ticks = Some (None, log)))
   \<and> ((\<forall>t \<in> set ticks. t \<noteq> CheckSync True) \<and> TimeoutTick \<in> set ticks \<longrightarrow>
        (\<exists>log. onStart ticks = Some (None,
           log @ [LogWarning ''starting server with unsynced DNS Name Resolver Informer''])))
   \<and> (initPlugin inClusterConfig newForConfig r = Inl e \<longleftrightarrow>
        inClusterConfig = Inl e
        \<or> (\<exists>kubeConfig. inClusterConfig = Inr kubeConfig \<and> newForConfig kubeConfig = Inl e))"
proof -
  have never: "\<forall>err log. onStart ticks \<noteq> Some (Some err, log)"
    using onStart_nil [of ticks] by blast
  show ?thesis
    using never onStart_timeout [of ticks] onStart_synced [of ticks] onStart_unsynced [of ticks]
      initPlugin_error [of inClusterConfig newForConfig r e]
    by blast
qed

theorem start_fails_open_witness:
  "TimeoutTick \<in> set [CheckSync False, CheckSync False, LogTick, CheckSync False, TimeoutTick]
   \<and> CheckSync True \<notin> set [CheckSync False, CheckSync False, LogTick, CheckSync False, TimeoutTick]
   \<and> onStart [CheckSync False, CheckSync False, LogTick, CheckSync False, TimeoutTick]
       = Some (None,
           [LogInfo ''waiting for DNS Name Resolver Informer sync before starting server'',
            LogWarning ''starting server with unsynced DNS Name Resolver Informer''])
   \<and> CheckSync True \<in> set [CheckSync False, CheckSync True]
   \<and> onStart [CheckSync False, CheckSync True] = Some (None, [])
   \<and> initPlugin (Inl ''no in-cluster configuration'' :: error + unit) (\<lambda>kubeConfig. Inr ()) New
       = Inl ''no in-cluster configuration''"
proof -
  let ?ticks = "[CheckSync False, CheckSync False, LogTick, CheckSync False, TimeoutTick]"
  have h1: "TimeoutTick \<in> set ?ticks" by simp
  have h2: "CheckSync True \<notin> set ?ticks" by simp
  have h3: "\<forall>t \<in> set ?ticks. t \<noteq> CheckSync True" by simp
  have h4: "CheckSync True \<in> set [CheckSync False, CheckSync True]" by simp
  from start_fails_open [of ?ticks "Inl ''no in-cluster configuration'' :: error + unit"
      "\<lambda>kubeConfig. Inr ()" New "''no in-cluster configuration''"] h1 h3
  have "\<exists>log. onStart ?ticks = Some (None,
           log @ [LogWarning ''starting server with unsynced DNS Name Resolver Informer''])"
    and i: "initPlugin (Inl ''no in-cluster configuration'' :: error + unit) (\<lambda>kubeConfig. Inr ()) New
       = Inl ''no in-cluster configuration''"
    by blast+
  then have a: "onStart ?ticks = Some (None,
           [LogInfo ''waiting for DNS Name Resolver Informer sync before starting server'',
            LogWarning ''starting server with unsynced DNS Name Resolver Informer''])"
    by simp
  have b: "onStart [CheckSync False, CheckSync True] = Some (None, [])" by simp
  show ?thesis using h1 h2 h4 a b i by blast
qed

end
